theory Spec2Isabelle
  imports Main "HOL-Library.Word" "HOL-Library.AList"
begin

section \<open>The IDA adapter of yodalib: \<open>yodalib/decompilers/ida/interface.py\<close>\<close>

text \<open>
  The development embeds the class \<open>IDAInterface\<close>. Python integers are \<open>int\<close>,
  \<open>Optional\<close> values are \<open>option\<close>, a \<open>dict\<close> is an association list in insertion
  order (Python dictionaries iterate in insertion order, and the coalescing loop
  depends on it), \<open>bytes\<close> is a list of 8-bit words. The methods keep their names
  without the leading underscore. The IDA SDK (\<open>idaapi\<close>, \<open>idc\<close>,
  \<open>ida_hexrays\<close>) and the module \<open>compat\<close> are outside the file: every call into
  them is a parameter of the function that makes the call.
\<close>

subsection \<open>Data\<close>

type_synonym byte = "8 word"

text \<open>
  Modelled from the spec: the artifact classes of \<open>yodalib.data\<close>, which the file
  imports and constructs positionally. Only the fields the adapter reads or writes
  are kept: \<open>Patch(addr, bytes)\<close>, \<open>FunctionHeader(name, addr)\<close>,
  \<open>Function(addr, size, header=...)\<close>, and the \<open>name\<close> of a \<open>Struct\<close>.
  The field names of \<open>Function\<close>, \<open>FunctionHeader\<close> and \<open>Struct\<close> carry a prefix,
  since record fields share one name space.
\<close>

record Patch =
  addr :: int
  bytes :: "byte list"

record FunctionHeader =
  fh_name :: string
  fh_addr :: int

record Function =
  fn_addr :: int
  fn_size :: int
  fn_header :: "FunctionHeader option"

record Struct =
  struct_name :: string
  struct_size :: int

text \<open>
  Python exceptions. \<open>except Exception\<close> catches the instances of \<open>Exception\<close>
  (\<open>ida_hexrays.DecompilationFailure\<close> is one) and lets the other instances of
  \<open>BaseException\<close> (\<open>KeyboardInterrupt\<close>, \<open>SystemExit\<close>) through.
\<close>

datatype py_exn = Exception string | BaseException string

text \<open>The records of the module logger \<open>_l\<close>, by severity.\<close>

datatype severity = Info | Warning | Critical

type_synonym log_record = "severity \<times> string"

text \<open>
  The fields that \<open>__init__\<close> (lines 27-35) gives an instance. A leading underscore
  is not a legal first character of a name here: \<open>_updated_ctx\<close> is
  \<open>updated_ctx\<close>, \<open>_decompiler_available\<close> is \<open>decompiler_available_cache\<close>,
  \<open>_crashing_version\<close> is \<open>crashing_version\<close>, \<open>_max_patch_size\<close> is
  \<open>max_patch_size\<close>.
\<close>

record IDAInterface =
  updated_ctx :: "Function option"
  decompiler_available_cache :: "bool option"
  crashing_version :: bool
  max_patch_size :: int

definition IDAInterface_init :: IDAInterface where
  "IDAInterface_init =
     \<lparr>updated_ctx = None, decompiler_available_cache = None,
      crashing_version = False, max_patch_size = 0xff\<rparr>"

subsection \<open>The patch coalescer: \<open>_collect_continuous_patches\<close> (lines 208-249)\<close>

text \<open>
  One call of the visitor that \<open>idaapi.visit_patched_bytes\<close> makes: the arguments
  \<open>(ea, fpos, org_val, patch_val)\<close>. The backend reports byte values, so
  \<open>bytes([patch_val])\<close> is the one-byte string.
\<close>

record patched_byte =
  ea :: int
  fpos :: int
  org_val :: byte
  patch_val :: byte

text \<open>
  What the function asks of the database: the two bounds of the program
  (\<open>inf_get_min_ea\<close>, \<open>inf_get_max_ea\<close>; the code allows for \<open>None\<close>) and the
  enumeration \<open>visit_patched_bytes ea1 ea2\<close>: the visitor calls, in the order in
  which the backend makes them.
\<close>

record idb =
  inf_get_min_ea :: "int option"
  inf_get_max_ea :: "int option"
  visit_patched_bytes :: "int \<Rightarrow> int \<Rightarrow> patched_byte list"

type_synonym bytes_dict = "(int \<times> byte list) list"

text \<open>Line 211-212: \<open>patches[ea] = bytes([patch_val])\<close>.\<close>

definition patch_collector :: "patched_byte \<Rightarrow> bytes_dict \<Rightarrow> bytes_dict" where
  "patch_collector f patches = AList.update (ea f) [patch_val f] patches"

text \<open>
  Line 236: \<open>continuous_patches[patch_start] += patch\<close> on a \<open>defaultdict(bytes)\<close>:
  a missing key reads as the empty string and is inserted at the end.
\<close>

definition append_bytes :: "int \<Rightarrow> byte list \<Rightarrow> bytes_dict \<Rightarrow> bytes_dict" where
  "append_bytes k patch cp =
     AList.update k ((case map_of cp k of None \<Rightarrow> [] | Some bs \<Rightarrow> bs) @ patch) cp"

text \<open>
  Lines 228-240, the loop over \<open>patches.items()\<close>, with the loop variables
  \<open>patch_start\<close>, \<open>last_pos\<close> and the dictionary \<open>continuous_patches\<close> as
  arguments. The byte is appended before the test of \<open>should_break\<close>, as in the
  source. \<open>patch_start\<close> is \<open>None\<close> only as long as \<open>last_pos\<close> is, and then the
  branch of line 230 assigns it: the case \<open>None\<close> of the append is never reached from
  the initial state (lemma \<open>collect_loop_start\<close> below covers the first iteration,
  and every later call has \<open>patch_start\<close> set).
\<close>

fun collect_loop ::
  "bool \<Rightarrow> bytes_dict \<Rightarrow> int option \<Rightarrow> int option \<Rightarrow> bytes_dict \<Rightarrow> bytes_dict" where
  "collect_loop stop_after_first [] patch_start last_pos continuous_patches =
     continuous_patches"
| "collect_loop stop_after_first ((pos, patch) # items) patch_start last_pos
       continuous_patches =
     (let new_run = (case last_pos of None \<Rightarrow> True | Some l \<Rightarrow> pos \<noteq> l + 1);
          patch_start' = (if new_run then Some pos else patch_start);
          should_break = (new_run \<and> last_pos \<noteq> None \<and> stop_after_first);
          continuous_patches' =
            (case patch_start' of
               None \<Rightarrow> continuous_patches
             | Some s \<Rightarrow> append_bytes s patch continuous_patches)
      in if should_break then continuous_patches'
         else collect_loop stop_after_first items patch_start' (Some pos)
                continuous_patches')"

text \<open>Lines 243-247: one \<open>Patch(offset, _bytes)\<close> per key.\<close>

definition normalized_patches :: "bytes_dict \<Rightarrow> (int \<times> Patch) list" where
  "normalized_patches continuous_patches =
     map (\<lambda>(offset, bs). (offset, \<lparr>addr = offset, bytes = bs\<rparr>)) continuous_patches"

text \<open>
  Lines 222-249 for one enumeration: the visitor fills \<open>patches\<close>, the loop
  coalesces, the result is normalised.
\<close>

definition coalesce :: "patched_byte list \<Rightarrow> bool \<Rightarrow> (int \<times> Patch) list" where
  "coalesce facts stop_after_first =
     normalized_patches
       (collect_loop stop_after_first (fold patch_collector facts []) None None [])"

text \<open>Lines 214-217: \<open>if x is None: x = default\<close>.\<close>

definition or_default :: "int option \<Rightarrow> int option \<Rightarrow> int option" where
  "or_default x d = (case x of None \<Rightarrow> d | Some v \<Rightarrow> Some v)"

definition collect_continuous_patches ::
  "idb \<Rightarrow> int option \<Rightarrow> int option \<Rightarrow> bool \<Rightarrow> (int \<times> Patch) list" where
  "collect_continuous_patches db min_addr max_addr stop_after_first =
     (case or_default min_addr (inf_get_min_ea db) of
        None \<Rightarrow> []
      | Some lo \<Rightarrow>
          (case or_default max_addr (inf_get_max_ea db) of
             None \<Rightarrow> []
           | Some hi \<Rightarrow> coalesce (visit_patched_bytes db lo hi) stop_after_first))"

text \<open>Lines 173-175 and 177-185.\<close>

definition get_patch :: "IDAInterface \<Rightarrow> idb \<Rightarrow> int \<Rightarrow> Patch option" where
  "get_patch self db a =
     map_of (collect_continuous_patches db (Some (a - 1)) (Some (a + max_patch_size self))
               True) a"

definition patches :: "idb \<Rightarrow> (int \<times> Patch) list" where
  "patches db = collect_continuous_patches db None None False"

subsection \<open>Writing artifacts: \<open>_set_patch\<close> (lines 169-171), \<open>_set_struct\<close> (lines 124-136)\<close>

text \<open>
  A call into the backend returns normally or raises, and leaves a database behind in
  both cases. \<open>idaapi.patch_bytes\<close> returns nothing; the setters of \<open>compat\<close> return
  the flag that \<open>_set_struct\<close> accumulates in \<open>data_changed\<close>.
\<close>

type_synonym ('a, 'db) backend_call = "'db \<Rightarrow> (py_exn + 'a) \<times> 'db"

definition set_patch ::
  "(int \<Rightarrow> byte list \<Rightarrow> (unit, 'db) backend_call) \<Rightarrow> Patch \<Rightarrow> (bool, 'db) backend_call" where
  "set_patch patch_bytes patch db =
     (case patch_bytes (addr patch) (bytes patch) db of
        (Inl e, db') \<Rightarrow> (Inl e, db')
      | (Inr u, db') \<Rightarrow> (Inr True, db'))"

text \<open>\<open>data_changed |= f(struct)\<close>.\<close>

definition or_changed ::
  "bool \<Rightarrow> (Struct \<Rightarrow> (bool, 'db) backend_call) \<Rightarrow> Struct \<Rightarrow> (bool, 'db) backend_call" where
  "or_changed data_changed f struct db =
     (case f struct db of
        (Inl e, db') \<Rightarrow> (Inl e, db')
      | (Inr c, db') \<Rightarrow> (Inr (data_changed \<or> c), db'))"

definition skip_message :: "Struct \<Rightarrow> string" where
  "skip_message struct =
     ''Syncing the struct '' @ struct_name struct @
     '' in IDA Pro 8.2 <= will cause a crash. Skipping...''"

text \<open>The state is the database together with the records logged so far.\<close>

definition set_struct ::
  "(Struct \<Rightarrow> (bool, 'db) backend_call) \<Rightarrow> (Struct \<Rightarrow> (bool, 'db) backend_call) \<Rightarrow>
   IDAInterface \<Rightarrow> Struct \<Rightarrow> bool \<Rightarrow> bool \<Rightarrow>
   'db \<times> log_record list \<Rightarrow> (py_exn + bool) \<times> ('db \<times> log_record list)" where
  "set_struct set_ida_struct set_ida_struct_member_types self struct header members w =
     (case w of (db, logged) \<Rightarrow>
        if crashing_version self \<and> struct_name struct = ''gcc_va_list''
        then (Inr False, (db, logged @ [(Critical, skip_message struct)]))
        else
          (case (if header then or_changed False set_ida_struct struct db
                 else (Inr False, db)) of
             (Inl e, db1) \<Rightarrow> (Inl e, (db1, logged))
           | (Inr data_changed, db1) \<Rightarrow>
               (case (if members
                      then or_changed data_changed set_ida_struct_member_types struct db1
                      else (Inr data_changed, db1)) of
                  (r, db2) \<Rightarrow> (r, (db2, logged)))))"

subsection \<open>\<open>_decompile\<close> (lines 76-82)\<close>

text \<open>
  \<open>ida_hexrays.decompile\<close> returns a \<open>cfunc\<close> or raises; \<open>str(cfunc)\<close> runs the
  backend's printer, outside the \<open>try\<close>.
\<close>

definition decompile ::
  "(int \<Rightarrow> py_exn + 'cfunc) \<Rightarrow> ('cfunc \<Rightarrow> py_exn + string) \<Rightarrow> Function \<Rightarrow>
   py_exn + string option" where
  "decompile hexrays_decompile str function =
     (case hexrays_decompile (fn_addr function) of
        Inl (Exception m) \<Rightarrow> Inr None
      | Inl (BaseException m) \<Rightarrow> Inl (BaseException m)
      | Inr cfunc \<Rightarrow>
          (case str cfunc of Inl e \<Rightarrow> Inl e | Inr text \<Rightarrow> Inr (Some text)))"

subsection \<open>The property \<open>decompiler_available\<close> (lines 69-74) and the instance fields\<close>

text \<open>
  A session is the instance together with the number of calls of
  \<open>ida_hexrays.init_hexrays_plugin\<close> made so far; \<open>init_hexrays_plugin n\<close> is the
  backend's answer to call number \<open>n\<close>, which may differ from call to call.
\<close>

type_synonym session = "IDAInterface \<times> nat"

definition decompiler_available :: "(nat \<Rightarrow> bool) \<Rightarrow> session \<Rightarrow> bool \<times> session" where
  "decompiler_available init_hexrays_plugin s =
     (case s of (self, probes) \<Rightarrow>
        (case decompiler_available_cache self of
           None \<Rightarrow>
             (let r = init_hexrays_plugin probes
              in (r, (self\<lparr>decompiler_available_cache := Some r\<rparr>, Suc probes)))
         | Some r \<Rightarrow> (r, (self, probes))))"

text \<open>
  Lines 47-58. \<open>not addr\<close> holds for \<open>None\<close> and for 0. The functions of \<open>compat\<close>
  and the constant \<open>idaapi.BADADDR\<close> are parameters.
\<close>

record compat_funcs =
  BADADDR :: int
  ida_func_addr :: "int \<Rightarrow> int option"
  get_func_name :: "int \<Rightarrow> string"

definition update_active_context ::
  "compat_funcs \<Rightarrow> int option \<Rightarrow> IDAInterface \<Rightarrow> IDAInterface" where
  "update_active_context cf a self =
     (case a of
        None \<Rightarrow> self
      | Some x \<Rightarrow>
          if x = 0 \<or> x = BADADDR cf then self
          else
            (case ida_func_addr cf x of
               None \<Rightarrow> self
             | Some func_addr \<Rightarrow>
                 self\<lparr>updated_ctx :=
                   Some \<lparr>fn_addr = func_addr, fn_size = 0,
                         fn_header = Some \<lparr>fh_name = get_func_name cf func_addr,
                                           fh_addr = func_addr\<rparr>\<rparr>\<rparr>))"

text \<open>
  The methods of the class, one constructor each, with the arguments that reach an
  instance field. \<open>on_instance\<close> is what a call does to the fields of \<open>self\<close> and to
  the number of probes: \<open>_set_function\<close>, \<open>_get_function\<close> and
  \<open>_set_stack_variable\<close> read the property \<open>decompiler_available\<close> while they build
  the arguments of the \<open>compat\<close> call (lines 90, 93, 100), \<open>update_active_context\<close>
  assigns \<open>_updated_ctx\<close>, and no other method assigns a field.
\<close>

datatype adapter_call =
    Binary_hash | Active_context | Update_active_context "int option" | Binary_path
  | Get_func_size | Goto_address | Decompiler_available | Decompile
  | Set_function | Get_function | Functions | Set_stack_variable
  | Set_global_variable | Get_global_var | Global_vars
  | Set_struct | Get_struct | Structs | Set_enum | Get_enum | Enums
  | Set_patch | Get_patch | Patches | Set_comment | Get_comment | Comments
  | Set_function_header | Collect_continuous_patches

fun on_instance :: "compat_funcs \<Rightarrow> (nat \<Rightarrow> bool) \<Rightarrow> adapter_call \<Rightarrow> session \<Rightarrow> session" where
  "on_instance cf probe (Update_active_context a) s =
     (update_active_context cf a (fst s), snd s)"
| "on_instance cf probe Decompiler_available s = snd (decompiler_available probe s)"
| "on_instance cf probe Set_function s = snd (decompiler_available probe s)"
| "on_instance cf probe Get_function s = snd (decompiler_available probe s)"
| "on_instance cf probe Set_stack_variable s = snd (decompiler_available probe s)"
| "on_instance cf probe c s = s"

definition run_calls ::
  "compat_funcs \<Rightarrow> (nat \<Rightarrow> bool) \<Rightarrow> adapter_call list \<Rightarrow> session \<Rightarrow> session" where
  "run_calls cf probe cs s = fold (on_instance cf probe) cs s"

subsection \<open>Runs of contiguous addresses\<close>

text \<open>
  The runs of a list of dictionary items, built from the right: an item joins the
  run that starts at the next address, and starts a run of its own otherwise.
  \<open>join_run (s, bs) l rs\<close> puts a run that starts at \<open>s\<close> and ends at \<open>l\<close> in front
  of the runs \<open>rs\<close>.
\<close>

fun join_run :: "int \<times> byte list \<Rightarrow> int \<Rightarrow> bytes_dict \<Rightarrow> bytes_dict" where
  "join_run (s, bs) l [] = [(s, bs)]"
| "join_run (s, bs) l ((s', bs') # rs) =
     (if s' = l + 1 then (s, bs @ bs') # rs else (s, bs) # (s', bs') # rs)"

definition runs_of :: "bytes_dict \<Rightarrow> bytes_dict" where
  "runs_of items = foldr (\<lambda>(a, v) rs. join_run (a, v) a rs) items []"

text \<open>The item that the visitor stores for one call.\<close>

definition item_of :: "patched_byte \<Rightarrow> int \<times> byte list" where
  "item_of f = (ea f, [patch_val f])"

text \<open>
  The addresses and bytes that a byte string covers when it is laid out from the
  address \<open>a\<close> onwards, for an entry of \<open>continuous_patches\<close> and for a patch of
  the result.
\<close>

fun spread :: "int \<Rightarrow> byte list \<Rightarrow> (int \<times> byte) list" where
  "spread a [] = []"
| "spread a (b # bs) = (a, b) # spread (a + 1) bs"

definition raw_layout :: "int \<times> byte list \<Rightarrow> (int \<times> byte) list" where
  "raw_layout r = spread (fst r) (snd r)"

definition layout :: "int \<times> Patch \<Rightarrow> (int \<times> byte) list" where
  "layout kp = spread (fst kp) (bytes (snd kp))"

text \<open>
  An entry ends before another one starts, with at least one address between them
  that neither covers.
\<close>

definition apart :: "int \<times> byte list \<Rightarrow> int \<times> byte list \<Rightarrow> bool" where
  "apart r r' = (fst r + int (length (snd r)) < fst r')"

definition ends_before :: "int \<times> Patch \<Rightarrow> int \<times> Patch \<Rightarrow> bool" where
  "ends_before kp kp' = (fst kp + int (length (bytes (snd kp))) < fst kp')"

text \<open>
  What the loop leaves of the runs when \<open>stop_after_first\<close> is set: the first run,
  and of a second run its start with one byte.
\<close>

fun first_and_leak :: "bytes_dict \<Rightarrow> bytes_dict" where
  "first_and_leak (r # (s, bs) # rs) = [r, (s, take 1 bs)]"
| "first_and_leak rs = rs"

text \<open>Every enumerated address is the successor of the one before it.\<close>

fun contiguous :: "patched_byte list \<Rightarrow> bool" where
  "contiguous (f # g # fs) = (ea g = ea f + 1 \<and> contiguous (g # fs))"
| "contiguous fs = True"

text \<open>The enumeration is strictly increasing and stays inside \<open>[lo, hi)\<close>.\<close>

definition increasing :: "patched_byte list \<Rightarrow> bool" where
  "increasing facts = sorted_wrt (<) (map ea facts)"

definition within :: "int \<Rightarrow> int \<Rightarrow> patched_byte list \<Rightarrow> bool" where
  "within lo hi facts = list_all (\<lambda>f. lo \<le> ea f \<and> ea f < hi) facts"

subsection \<open>Example data\<close>

definition edit :: "int \<Rightarrow> byte \<Rightarrow> patched_byte" where
  "edit a v = \<lparr>ea = a, fpos = a, org_val = 0, patch_val = v\<rparr>"

text \<open>The bytes \<open>a\<close> to \<open>f\<close> at the addresses 10, 11, 12, 20, 21, 30.\<close>

definition example_facts :: "patched_byte list" where
  "example_facts =
     [edit 10 0x61, edit 11 0x62, edit 12 0x63, edit 20 0x64, edit 21 0x65, edit 30 0x66]"

text \<open>A database whose patched bytes are \<open>facts\<close>: the visitor sees those in the range.\<close>

definition idb_of :: "patched_byte list \<Rightarrow> idb" where
  "idb_of facts =
     \<lparr>inf_get_min_ea = Some 0, inf_get_max_ea = Some 0x1000,
      visit_patched_bytes = (\<lambda>ea1 ea2. filter (\<lambda>f. ea1 \<le> ea f \<and> ea f < ea2) facts)\<rparr>"

text \<open>
  A database reduced to its patched bytes, for the examples of \<open>_set_patch\<close>:
  \<open>patch_bytes ea buf\<close> stores \<open>buf[i]\<close> at \<open>ea + i\<close> and returns.
\<close>

definition store_bytes :: "int \<Rightarrow> byte list \<Rightarrow> (unit, (int \<times> byte) list) backend_call" where
  "store_bytes a buf db =
     (Inr (), fold (\<lambda>(i, b). AList.update (a + int i) b) (enumerate 0 buf) db)"

text \<open>
  Setters of \<open>compat\<close> for the examples: the database counts the writes, and every
  write reports a change.
\<close>

definition example_setter :: "Struct \<Rightarrow> (bool, nat) backend_call" where
  "example_setter struct db = (Inr True, Suc db)"

text \<open>One function, \<open>main\<close>, at \<open>[0x1000, 0x1040)\<close>.\<close>

definition example_compat :: compat_funcs where
  "example_compat =
     \<lparr>BADADDR = 0xffffffffffffffff,
      ida_func_addr = (\<lambda>a. if 0x1000 \<le> a \<and> a < 0x1040 then Some 0x1000 else None),
      get_func_name = (\<lambda>a. ''main'')\<rparr>"

text \<open>A decompiler that knows the function at \<open>0x1000\<close> and fails on every other address.\<close>

definition example_decompile :: "int \<Rightarrow> py_exn + string" where
  "example_decompile a =
     (if a = 0x1000 then Inr ''int main()'' else Inl (Exception ''DecompilationFailure''))"

text \<open>
  The invariant of a session that starts with \<open>__init__\<close>: no probe before the cache
  is filled, one probe at most after.
\<close>

definition probed_once :: "session \<Rightarrow> bool" where
  "probed_once s =
     (case decompiler_available_cache (fst s) of None \<Rightarrow> snd s = 0 | Some b \<Rightarrow> snd s \<le> 1)"

section \<open>Properties\<close>

subsection \<open>An empty enumeration\<close>

lemma coalesce_Nil: "coalesce [] stop_after_first = []"
  by (simp add: coalesce_def normalized_patches_def)

text \<open>
  C5. Whatever the bounds of the query are, given or defaulted, and whatever the flag:
  when the enumeration of patched bytes over the range is empty, and also when a bound
  cannot be determined, the coalescer returns the empty dictionary. The function has
  no raising path of its own, so the result is a value in every case.
\<close>

theorem collect_empty_enumeration:
  assumes "\<And>lo hi. or_default min_addr (inf_get_min_ea db) = Some lo \<Longrightarrow>
             or_default max_addr (inf_get_max_ea db) = Some hi \<Longrightarrow>
             visit_patched_bytes db lo hi = []"
  shows "collect_continuous_patches db min_addr max_addr stop_after_first = []"
  using assms
  by (simp add: collect_continuous_patches_def coalesce_Nil split: option.splits)

theorem collect_empty_enumeration_witness:
  "visit_patched_bytes (idb_of example_facts) 40 50 = [] \<and>
   collect_continuous_patches (idb_of example_facts) (Some 40) (Some 50) True = []"
proof -
  have e: "visit_patched_bytes (idb_of example_facts) 40 50 = []"
    by (simp add: idb_of_def example_facts_def edit_def)
  have "collect_continuous_patches (idb_of example_facts) (Some 40) (Some 50) True = []"
    by (rule collect_empty_enumeration) (simp add: or_default_def e)
  with e show ?thesis by simp
qed

subsection \<open>The loop computes the runs\<close>

text \<open>
  With pairwise distinct addresses the visitor stores one item per call, in the order
  of the calls, and every append of the loop goes to the last entry of
  \<open>continuous_patches\<close> or adds an entry behind it.
\<close>

lemma update_fresh: "k \<notin> fst ` set al \<Longrightarrow> AList.update k v al = al @ [(k, v)]"
  by (induction al) auto

lemma update_last: "k \<notin> fst ` set al \<Longrightarrow> AList.update k v (al @ [(k, w)]) = al @ [(k, v)]"
  by (induction al) auto

lemma map_of_last: "k \<notin> fst ` set al \<Longrightarrow> map_of (al @ [(k, w)]) k = Some w"
  by (induction al) auto

lemma append_bytes_fresh: "k \<notin> fst ` set cp \<Longrightarrow> append_bytes k v cp = cp @ [(k, v)]"
  by (simp add: append_bytes_def update_fresh map_of_eq_None_iff [THEN iffD2])

lemma append_bytes_last:
  "s \<notin> fst ` set cp \<Longrightarrow> append_bytes s v (cp @ [(s, bs)]) = cp @ [(s, bs @ v)]"
  by (simp add: append_bytes_def update_last map_of_last del: map_of_append)

lemma fold_patch_collector:
  "distinct (map fst acc @ map ea facts) \<Longrightarrow>
   fold patch_collector facts acc = acc @ map item_of facts"
proof (induction facts arbitrary: acc)
  case Nil
  then show ?case by simp
next
  case (Cons f facts)
  from Cons.prems have fresh: "ea f \<notin> fst ` set acc" by auto
  from Cons.prems have "distinct (map fst (acc @ [item_of f]) @ map ea facts)"
    by (auto simp add: item_of_def)
  from Cons.IH [OF this] fresh show ?case
    by (simp add: patch_collector_def update_fresh item_of_def)
qed

lemma runs_of_Nil: "runs_of [] = []"
  by (simp add: runs_of_def)

lemma runs_of_Cons: "runs_of ((a, v) # items) = join_run (a, v) a (runs_of items)"
  by (simp add: runs_of_def)

lemma join_run_step:
  "join_run (s, bs) l (join_run (a, v) a rs) =
     (if a = l + 1 then join_run (s, bs @ v) a rs else (s, bs) # join_run (a, v) a rs)"
  by (cases rs) auto

lemma collect_loop_False:
  "distinct (map fst cp @ s # map fst items) \<Longrightarrow>
   collect_loop False items (Some s) (Some l) (cp @ [(s, bs)]) =
     cp @ join_run (s, bs) l (runs_of items)"
proof (induction items arbitrary: s l bs cp)
  case Nil
  then show ?case by (simp add: runs_of_Nil)
next
  case (Cons x items)
  obtain a v where x: "x = (a, v)" by (cases x)
  show ?case
  proof (cases "a = l + 1")
    case True
    from Cons.prems have s: "s \<notin> fst ` set cp" by auto
    from Cons.prems have "distinct (map fst cp @ s # map fst items)" by simp
    from Cons.IH [OF this, of a "bs @ v"] s True show ?thesis
      by (simp add: x append_bytes_last runs_of_Cons join_run_step)
  next
    case False
    from Cons.prems have a: "a \<notin> fst ` set (cp @ [(s, bs)])" by (auto simp add: x)
    from Cons.prems have "distinct (map fst (cp @ [(s, bs)]) @ a # map fst items)"
      by (auto simp add: x)
    from Cons.IH [OF this, of a v] False show ?thesis
      by (simp add: x append_bytes_fresh [OF a] runs_of_Cons join_run_step)
  qed
qed

lemma first_and_leak_join:
  "a \<noteq> l + 1 \<Longrightarrow> length v = 1 \<Longrightarrow>
   first_and_leak (join_run (s, bs) l (join_run (a, v) a rs)) = [(s, bs), (a, v)]"
  by (cases rs) auto

lemma collect_loop_True:
  "distinct (map fst cp @ s # map fst items) \<Longrightarrow> \<forall>x\<in>set items. length (snd x) = 1 \<Longrightarrow>
   collect_loop True items (Some s) (Some l) (cp @ [(s, bs)]) =
     cp @ first_and_leak (join_run (s, bs) l (runs_of items))"
proof (induction items arbitrary: s l bs cp)
  case Nil
  then show ?case by (simp add: runs_of_Nil)
next
  case (Cons x items)
  obtain a v where x: "x = (a, v)" by (cases x)
  from Cons.prems have v: "length v = 1" by (simp add: x)
  show ?case
  proof (cases "a = l + 1")
    case True
    from Cons.prems have s: "s \<notin> fst ` set cp" by auto
    from Cons.prems have "distinct (map fst cp @ s # map fst items)" by simp
    moreover from Cons.prems have "\<forall>x\<in>set items. length (snd x) = 1" by simp
    ultimately have
      "collect_loop True items (Some s) (Some a) (cp @ [(s, bs @ v)]) =
         cp @ first_and_leak (join_run (s, bs @ v) a (runs_of items))"
      by (rule Cons.IH)
    with s True show ?thesis
      by (simp add: x append_bytes_last runs_of_Cons join_run_step)
  next
    case False
    from Cons.prems have a: "a \<notin> fst ` set (cp @ [(s, bs)])" by (auto simp add: x)
    from False v show ?thesis
      by (simp add: x append_bytes_fresh [OF a] runs_of_Cons first_and_leak_join)
  qed
qed

lemma collect_loop_start:
  "collect_loop stop ((a, v) # items) None None [] =
     collect_loop stop items (Some a) (Some a) ([] @ [(a, v)])"
  by (simp add: append_bytes_def Let_def)

lemma loop_runs_False:
  assumes "distinct (map fst items)"
  shows "collect_loop False items None None [] = runs_of items"
proof (cases items)
  case Nil
  then show ?thesis by (simp add: runs_of_Nil)
next
  case (Cons x xs)
  obtain a v where x: "x = (a, v)" by (cases x)
  from assms Cons x have "distinct (map fst [] @ a # map fst xs)" by simp
  from collect_loop_False [OF this, of a v] show ?thesis
    unfolding Cons x collect_loop_start by (simp add: runs_of_Cons)
qed

lemma loop_runs_True:
  assumes "distinct (map fst items)" and "\<forall>x\<in>set items. length (snd x) = 1"
  shows "collect_loop True items None None [] = first_and_leak (runs_of items)"
proof (cases items)
  case Nil
  then show ?thesis by (simp add: runs_of_Nil)
next
  case (Cons x xs)
  obtain a v where x: "x = (a, v)" by (cases x)
  from assms Cons x have "distinct (map fst [] @ a # map fst xs)" by simp
  moreover from assms Cons have "\<forall>x\<in>set xs. length (snd x) = 1" by simp
  ultimately have "collect_loop True xs (Some a) (Some a) ([] @ [(a, v)]) =
      [] @ first_and_leak (join_run (a, v) a (runs_of xs))"
    by (rule collect_loop_True)
  then show ?thesis
    unfolding Cons x collect_loop_start by (simp add: runs_of_Cons)
qed

lemma increasing_distinct: "increasing facts \<Longrightarrow> distinct (map ea facts)"
  by (simp add: increasing_def strict_sorted_iff)

lemma map_fst_items: "map fst (map item_of facts) = map ea facts"
  by (simp add: item_of_def)

lemma items_single: "\<forall>x\<in>set (map item_of facts). length (snd x) = 1"
  by (simp add: item_of_def)

lemma patches_filled:
  "distinct (map ea facts) \<Longrightarrow> fold patch_collector facts [] = map item_of facts"
  using fold_patch_collector [of "[]" facts] by simp

lemma coalesce_False:
  assumes "distinct (map ea facts)"
  shows "coalesce facts False = normalized_patches (runs_of (map item_of facts))"
proof -
  from assms have "distinct (map fst (map item_of facts))"
    by (simp only: map_fst_items)
  then have "collect_loop False (map item_of facts) None None [] = runs_of (map item_of facts)"
    by (rule loop_runs_False)
  with assms show ?thesis
    by (simp add: coalesce_def patches_filled)
qed

lemma coalesce_True:
  assumes "distinct (map ea facts)"
  shows "coalesce facts True = normalized_patches (first_and_leak (runs_of (map item_of facts)))"
proof -
  from assms have "distinct (map fst (map item_of facts))"
    by (simp only: map_fst_items)
  then have "collect_loop True (map item_of facts) None None [] =
      first_and_leak (runs_of (map item_of facts))"
    using items_single by (rule loop_runs_True)
  with assms show ?thesis
    by (simp add: coalesce_def patches_filled)
qed


lemma spread_append:
  "spread a (xs @ ys) = spread a xs @ spread (a + int (length xs)) ys"
  by (induction xs arbitrary: a) (simp_all add: add.assoc)

lemma fst_set_spread: "fst ` set (spread a bs) = {a ..< a + int (length bs)}"
  by (induction bs arbitrary: a) (auto simp add: image_iff)

lemma runs_of_item:
  "runs_of (item_of f # items) = join_run (ea f, [patch_val f]) (ea f) (runs_of items)"
  by (simp add: item_of_def runs_of_Cons)

lemma join_run_layout:
  "concat (map raw_layout (join_run (a, [b]) a rs)) = (a, b) # concat (map raw_layout rs)"
  by (cases rs) (auto simp add: raw_layout_def)

lemma runs_layout:
  "concat (map raw_layout (runs_of (map item_of facts))) = map (\<lambda>f. (ea f, patch_val f)) facts"
  by (induction facts) (simp_all add: runs_of_Nil runs_of_item join_run_layout)

lemma join_run_head:
  "\<exists>bs' rs'. join_run (a, b # bs) l rs = (a, b # bs') # rs'"
  by (cases rs) auto

lemma runs_head:
  "\<exists>bs rs. runs_of (map item_of (f # fs)) = (ea f, patch_val f # bs) # rs"
  unfolding list.map runs_of_item by (rule join_run_head)

lemma runs_all_nonempty: "\<forall>r\<in>set (runs_of (map item_of facts)). snd r \<noteq> []"
proof (induction facts)
  case Nil
  then show ?case by (simp add: runs_of_Nil)
next
  case (Cons f fs)
  then show ?case
    by (cases "runs_of (map item_of fs)") (auto simp add: runs_of_item split: if_splits)
qed

lemma runs_nonempty_bytes: "r \<in> set (runs_of (map item_of facts)) \<Longrightarrow> snd r \<noteq> []"
  using runs_all_nonempty by blast

lemma runs_covered:
  assumes "r \<in> set (runs_of (map item_of facts))" and "fst r \<le> x" and "x < fst r + int (length (snd r))"
  shows "x \<in> ea ` set facts"
proof -
  from assms(2,3) have "x \<in> fst ` set (raw_layout r)"
    by (simp add: raw_layout_def fst_set_spread)
  also from assms(1) have "\<dots> \<subseteq> fst ` set (concat (map raw_layout (runs_of (map item_of facts))))"
    by auto
  also have "\<dots> = ea ` set facts"
    unfolding runs_layout by force
  finally show ?thesis .
qed

lemma runs_key: "r \<in> set (runs_of (map item_of facts)) \<Longrightarrow> fst r \<in> ea ` set facts"
  using runs_covered [of r facts "fst r"] runs_nonempty_bytes [of r facts] by simp

lemma runs_end:
  "r \<in> set (runs_of (map item_of facts)) \<Longrightarrow> fst r + int (length (snd r)) - 1 \<in> ea ` set facts"
  using runs_covered [of r facts "fst r + int (length (snd r)) - 1"]
    runs_nonempty_bytes [of r facts] by simp

lemma increasing_Cons: "increasing (f # fs) \<longleftrightarrow> (\<forall>g\<in>set fs. ea f < ea g) \<and> increasing fs"
  by (auto simp add: increasing_def)

lemma apart_pair: "apart (s, bs) r \<longleftrightarrow> s + int (length bs) < fst r"
  by (simp add: apart_def)

lemma runs_apart: "increasing facts \<Longrightarrow> sorted_wrt apart (runs_of (map item_of facts))"
proof (induction facts)
  case Nil
  then show ?case by (simp add: runs_of_Nil)
next
  case (Cons f fs)
  let ?rs = "runs_of (map item_of fs)"
  from Cons.prems have above: "\<forall>g\<in>set fs. ea f < ea g" and inc: "increasing fs"
    by (simp_all add: increasing_Cons)
  from Cons.IH [OF inc] have IH: "sorted_wrt apart ?rs" .
  have keys: "\<forall>r\<in>set ?rs. ea f < fst r"
    using above by (auto dest!: runs_key)
  show ?case
  proof (cases ?rs)
    case Nil
    then show ?thesis by (simp add: runs_of_item)
  next
    case (Cons r rs')
    obtain s' bs' where r: "r = (s', bs')" by (cases r)
    from IH Cons r have later: "\<forall>r'\<in>set rs'. s' + int (length bs') < fst r'" and rest: "sorted_wrt apart rs'"
      by (simp_all add: apart_pair)
    from keys Cons r have s': "ea f < s'" by simp
    show ?thesis
    proof (cases "s' = ea f + 1")
      case True
      with later rest show ?thesis
        by (auto simp add: runs_of_item Cons r apart_pair add.assoc)
    next
      case False
      with s' later rest IH show ?thesis
        by (auto simp add: runs_of_item Cons r apart_pair)
    qed
  qed
qed

lemma runs_cover:
  "x \<in> ea ` set facts \<longleftrightarrow>
     (\<exists>r\<in>set (runs_of (map item_of facts)). fst r \<le> x \<and> x < fst r + int (length (snd r)))"
proof -
  have "ea ` set facts = fst ` set (concat (map raw_layout (runs_of (map item_of facts))))"
    unfolding runs_layout by force
  also have "\<dots> = (\<Union>r\<in>set (runs_of (map item_of facts)). {fst r ..< fst r + int (length (snd r))})"
    by (simp add: image_UN raw_layout_def fst_set_spread)
  finally show ?thesis by auto
qed

lemma apart_pairwise:
  "sorted_wrt apart rs \<Longrightarrow> r \<in> set rs \<Longrightarrow> r' \<in> set rs \<Longrightarrow> r = r' \<or> apart r r' \<or> apart r' r"
  by (induction rs) auto

lemma run_starts:
  assumes "increasing facts"
  shows "fst ` set (runs_of (map item_of facts)) =
           {a \<in> ea ` set facts. a - 1 \<notin> ea ` set facts}"
proof (intro set_eqI iffI)
  fix a assume "a \<in> fst ` set (runs_of (map item_of facts))"
  then obtain r where r: "r \<in> set (runs_of (map item_of facts))" and a: "a = fst r" by auto
  from r have in_A: "fst r \<in> ea ` set facts" by (rule runs_key)
  have "fst r - 1 \<notin> ea ` set facts"
  proof
    assume "fst r - 1 \<in> ea ` set facts"
    then obtain r' where r': "r' \<in> set (runs_of (map item_of facts))"
      and c: "fst r' \<le> fst r - 1" "fst r - 1 < fst r' + int (length (snd r'))"
      unfolding runs_cover by blast
    from apart_pairwise [OF runs_apart [OF assms] r r'] c show False
      by (auto simp add: apart_def)
  qed
  with in_A a show "a \<in> {a \<in> ea ` set facts. a - 1 \<notin> ea ` set facts}" by simp
next
  fix a assume "a \<in> {a \<in> ea ` set facts. a - 1 \<notin> ea ` set facts}"
  then have in_A: "a \<in> ea ` set facts" and before: "a - 1 \<notin> ea ` set facts" by simp_all
  from in_A obtain r where r: "r \<in> set (runs_of (map item_of facts))"
    and c: "fst r \<le> a" "a < fst r + int (length (snd r))"
    unfolding runs_cover by blast
  have "fst r = a"
  proof (rule ccontr)
    assume "fst r \<noteq> a"
    with c have "fst r \<le> a - 1" "a - 1 < fst r + int (length (snd r))" by simp_all
    with r have "a - 1 \<in> ea ` set facts" by (rule runs_covered)
    with before show False ..
  qed
  with r show "a \<in> fst ` set (runs_of (map item_of facts))" by force
qed

subsection \<open>The patches of a complete pass\<close>

lemma collect_resolved:
  "or_default min_addr (inf_get_min_ea db) = Some lo \<Longrightarrow>
   or_default max_addr (inf_get_max_ea db) = Some hi \<Longrightarrow>
   collect_continuous_patches db min_addr max_addr stop =
     coalesce (visit_patched_bytes db lo hi) stop"
  by (simp add: collect_continuous_patches_def)

lemma layout_normalized:
  "concat (map layout (normalized_patches rs)) = concat (map raw_layout rs)"
  by (induction rs) (auto simp add: normalized_patches_def layout_def raw_layout_def)

lemma keys_normalized: "map fst (normalized_patches rs) = map fst rs"
  by (induction rs) (auto simp add: normalized_patches_def)

lemma key_set_normalized: "fst ` set (normalized_patches rs) = fst ` set rs"
  using keys_normalized [of rs] by (metis set_map)

lemma in_normalized:
  "(k, p) \<in> set (normalized_patches rs) \<longleftrightarrow> addr p = k \<and> (k, bytes p) \<in> set rs"
  by (cases p) (auto simp add: normalized_patches_def)

lemma ends_before_normalized:
  "sorted_wrt ends_before (normalized_patches rs) = sorted_wrt apart rs"
  by (induction rs) (auto simp add: normalized_patches_def ends_before_def apart_def)

lemma map_of_normalized:
  "map_of (normalized_patches rs) k =
     map_option (\<lambda>bs. \<lparr>addr = k, bytes = bs\<rparr>) (map_of rs k)"
  by (induction rs) (auto simp add: normalized_patches_def)

lemma apart_distinct: "sorted_wrt apart rs \<Longrightarrow> distinct (map fst rs)"
  by (induction rs) (auto simp add: apart_def)

lemma example_patches:
  "collect_continuous_patches (idb_of example_facts) None None False =
     [(10, \<lparr>addr = 10, bytes = [0x61, 0x62, 0x63]\<rparr>),
      (20, \<lparr>addr = 20, bytes = [0x64, 0x65]\<rparr>),
      (30, \<lparr>addr = 30, bytes = [0x66]\<rparr>)]"
  by (simp add: collect_continuous_patches_def or_default_def idb_of_def example_facts_def
      edit_def coalesce_def patch_collector_def append_bytes_def normalized_patches_def Let_def)

lemma example_enumeration:
  "visit_patched_bytes (idb_of example_facts) 0 0x1000 = example_facts"
  "visit_patched_bytes (idb_of example_facts) 9 265 = example_facts"
  "visit_patched_bytes (idb_of example_facts) 9 40 = example_facts"
  by (simp_all add: idb_of_def example_facts_def edit_def)

lemma example_increasing: "increasing example_facts"
  by (simp add: increasing_def example_facts_def edit_def)

text \<open>
  C3. Let the enumeration over the resolved range be strictly increasing and
  \<open>stop_after_first\<close> be false. Then the patches of the result, each laid out from
  its key onwards and taken in the order of the dictionary, are exactly the enumerated
  addresses with their bytes, in address order: every patch is a run of consecutive
  addresses with the bytes of its facts concatenated. Every patch carries its key as
  \<open>addr\<close> and has at least one byte. Every patch ends before any later patch starts,
  with an address in between that is not patched: the runs are maximal, and the keys
  are pairwise distinct. The keys are the run starts: the enumerated addresses whose
  predecessor is not enumerated.
\<close>

theorem coalesced_runs:
  assumes "or_default min_addr (inf_get_min_ea db) = Some lo"
    and "or_default max_addr (inf_get_max_ea db) = Some hi"
    and "increasing (visit_patched_bytes db lo hi)"
  shows "concat (map layout (collect_continuous_patches db min_addr max_addr False)) =
           map (\<lambda>f. (ea f, patch_val f)) (visit_patched_bytes db lo hi) \<and>
         (\<forall>(k, p) \<in> set (collect_continuous_patches db min_addr max_addr False).
            addr p = k \<and> bytes p \<noteq> []) \<and>
         sorted_wrt ends_before (collect_continuous_patches db min_addr max_addr False) \<and>
         distinct (map fst (collect_continuous_patches db min_addr max_addr False)) \<and>
         fst ` set (collect_continuous_patches db min_addr max_addr False) =
           {a \<in> ea ` set (visit_patched_bytes db lo hi).
              a - 1 \<notin> ea ` set (visit_patched_bytes db lo hi)}"
proof -
  let ?facts = "visit_patched_bytes db lo hi"
  let ?rs = "runs_of (map item_of ?facts)"
  from assms(3) have "distinct (map ea ?facts)" by (rule increasing_distinct)
  with assms(1,2)
  have R: "collect_continuous_patches db min_addr max_addr False = normalized_patches ?rs"
    by (simp add: collect_resolved coalesce_False)
  have 1: "concat (map layout (normalized_patches ?rs)) = map (\<lambda>f. (ea f, patch_val f)) ?facts"
    by (simp only: layout_normalized runs_layout)
  have 2: "\<forall>(k, p) \<in> set (normalized_patches ?rs). addr p = k \<and> bytes p \<noteq> []"
    using runs_all_nonempty [of ?facts] by (force simp add: in_normalized)
  from assms(3) have ap: "sorted_wrt apart ?rs" by (rule runs_apart)
  then have 3: "sorted_wrt ends_before (normalized_patches ?rs)"
    by (simp only: ends_before_normalized)
  from ap have 4: "distinct (map fst (normalized_patches ?rs))"
    by (simp only: keys_normalized apart_distinct)
  from assms(3) have 5: "fst ` set (normalized_patches ?rs) =
      {a \<in> ea ` set ?facts. a - 1 \<notin> ea ` set ?facts}"
    by (simp only: key_set_normalized run_starts)
  from 1 2 3 4 5 show ?thesis unfolding R by blast
qed

theorem coalesced_runs_witness:
  "increasing (visit_patched_bytes (idb_of example_facts) 0 0x1000) \<and>
   collect_continuous_patches (idb_of example_facts) None None False =
     [(10, \<lparr>addr = 10, bytes = [0x61, 0x62, 0x63]\<rparr>),
      (20, \<lparr>addr = 20, bytes = [0x64, 0x65]\<rparr>),
      (30, \<lparr>addr = 30, bytes = [0x66]\<rparr>)] \<and>
   concat (map layout (collect_continuous_patches (idb_of example_facts) None None False)) =
     map (\<lambda>f. (ea f, patch_val f)) (visit_patched_bytes (idb_of example_facts) 0 0x1000) \<and>
   sorted_wrt ends_before (collect_continuous_patches (idb_of example_facts) None None False) \<and>
   distinct (map fst (collect_continuous_patches (idb_of example_facts) None None False))"
proof -
  have lo: "or_default None (inf_get_min_ea (idb_of example_facts)) = Some 0"
    and hi: "or_default None (inf_get_max_ea (idb_of example_facts)) = Some 0x1000"
    by (simp_all add: or_default_def idb_of_def)
  have inc: "increasing (visit_patched_bytes (idb_of example_facts) 0 0x1000)"
    by (simp only: example_enumeration example_increasing)
  from coalesced_runs [OF lo hi inc] inc example_patches show ?thesis by blast
qed

subsection \<open>A gap starts a run\<close>

lemma join_run_append: "rs \<noteq> [] \<Longrightarrow> join_run x l (rs @ rs') = join_run x l rs @ rs'"
  by (cases x; cases rs) auto

lemma runs_nonempty: "runs_of (map item_of (xs @ [f])) \<noteq> []"
  using runs_head [of "hd (xs @ [f])" "tl (xs @ [f])"] by auto

lemma runs_split_gap:
  assumes "ea g \<noteq> ea f + 1"
  shows "runs_of (map item_of (xs @ f # g # ys)) =
           runs_of (map item_of (xs @ [f])) @ runs_of (map item_of (g # ys))"
proof (induction xs)
  case Nil
  obtain bs rs where "runs_of (map item_of (g # ys)) = (ea g, patch_val g # bs) # rs"
    using runs_head by blast
  with assms show ?case
    by (simp add: runs_of_item runs_of_Nil)
next
  case (Cons x xs)
  have "runs_of (map item_of ((x # xs) @ f # g # ys)) =
          join_run (ea x, [patch_val x]) (ea x) (runs_of (map item_of (xs @ f # g # ys)))"
    by (simp add: runs_of_item)
  also have "\<dots> = join_run (ea x, [patch_val x]) (ea x) (runs_of (map item_of (xs @ [f]))) @
                   runs_of (map item_of (g # ys))"
    unfolding Cons.IH by (rule join_run_append) (rule runs_nonempty)
  also have "join_run (ea x, [patch_val x]) (ea x) (runs_of (map item_of (xs @ [f]))) =
               runs_of (map item_of ((x # xs) @ [f]))"
    by (simp add: runs_of_item)
  finally show ?case .
qed

lemma contiguous_single_run:
  "contiguous (f # fs) \<Longrightarrow> runs_of (map item_of (f # fs)) = [(ea f, map patch_val (f # fs))]"
proof (induction fs arbitrary: f)
  case Nil
  show ?case by (simp add: runs_of_item runs_of_Nil)
next
  case (Cons a fs)
  from Cons.prems have next_addr: "ea a = ea f + 1" and "contiguous (a # fs)" by simp_all
  from Cons.IH [OF this(2)]
  have "runs_of (map item_of (a # fs)) = [(ea a, map patch_val (a # fs))]" .
  then have "runs_of (item_of f # map item_of (a # fs)) =
      join_run (ea f, [patch_val f]) (ea f) [(ea a, map patch_val (a # fs))]"
    by (simp only: runs_of_item)
  with next_addr show ?case by simp
qed

lemma increasing_gap:
  assumes "increasing (xs @ f # g # ys)"
  shows "\<forall>x\<in>set (xs @ [f]). ea x \<le> ea f" and "ea f < ea g" and "\<forall>y\<in>set (g # ys). ea f < ea y"
    and "\<forall>x\<in>set (xs @ [f]). ea x < ea g"
  using assms by (auto simp add: increasing_def sorted_wrt_append)

lemma gap_entries:
  assumes inc: "increasing (xs @ f # g # ys)"
    and A: "set A \<subseteq> set (runs_of (map item_of (xs @ [f])))"
    and C: "\<forall>r\<in>set C. ea f < fst r"
  shows "map_of (normalized_patches (A @ (ea g, bs) # C)) (ea g) = Some \<lparr>addr = ea g, bytes = bs\<rparr>"
    and "\<forall>(k, p) \<in> set (normalized_patches (A @ (ea g, bs) # C)).
           \<not> (k \<le> ea f \<and> ea g < k + int (length (bytes p)))"
proof -
  note g = increasing_gap [OF inc]
  have keysA: "ea g \<notin> fst ` set A"
  proof
    assume "ea g \<in> fst ` set A"
    then obtain r where "r \<in> set A" and "fst r = ea g" by auto
    with A have "ea g \<in> ea ` set (xs @ [f])" using runs_key [of r "xs @ [f]"] by auto
    with g(4) show False by auto
  qed
  then have "map_of A (ea g) = None" by (simp add: map_of_eq_None_iff)
  then show "map_of (normalized_patches (A @ (ea g, bs) # C)) (ea g) = Some \<lparr>addr = ea g, bytes = bs\<rparr>"
    by (simp add: map_of_normalized map_add_def)
  have endA: "fst r + int (length (snd r)) \<le> ea g" if "r \<in> set A" for r
  proof -
    from that A have "fst r + int (length (snd r)) - 1 \<in> ea ` set (xs @ [f])"
      using runs_end [of r "xs @ [f]"] by auto
    with g(4) show ?thesis by auto
  qed
  show "\<forall>(k, p) \<in> set (normalized_patches (A @ (ea g, bs) # C)).
           \<not> (k \<le> ea f \<and> ea g < k + int (length (bytes p)))"
    using endA C g(2) by (fastforce simp add: in_normalized)
qed

text \<open>
  C4. Let \<open>f\<close> and \<open>g\<close> be consecutive facts of a strictly increasing enumeration
  with \<open>ea g \<noteq> ea f + 1\<close>, whatever their bytes are, and let the loop reach them:
  always when \<open>stop_after_first\<close> is false, and when it is set if no gap precedes
  \<open>f\<close> (the loop ends at the first gap). Then the result has a patch keyed at
  \<open>ea g\<close> whose first byte is the byte of \<open>g\<close>, and no patch of the result covers
  both \<open>ea f\<close> and \<open>ea g\<close>.
\<close>

theorem gap_starts_run:
  assumes lo: "or_default min_addr (inf_get_min_ea db) = Some lo"
    and hi: "or_default max_addr (inf_get_max_ea db) = Some hi"
    and facts: "visit_patched_bytes db lo hi = xs @ f # g # ys"
    and inc: "increasing (xs @ f # g # ys)"
    and gap: "ea g \<noteq> ea f + 1"
    and reach: "stop_after_first \<longrightarrow> contiguous (xs @ [f])"
  shows "(\<exists>bs. map_of (collect_continuous_patches db min_addr max_addr stop_after_first) (ea g) =
            Some \<lparr>addr = ea g, bytes = patch_val g # bs\<rparr>) \<and>
         (\<forall>(k, p) \<in> set (collect_continuous_patches db min_addr max_addr stop_after_first).
            \<not> (k \<le> ea f \<and> ea g < k + int (length (bytes p))))"
proof -
  let ?A = "runs_of (map item_of (xs @ [f]))"
  obtain bs B where B: "runs_of (map item_of (g # ys)) = (ea g, patch_val g # bs) # B"
    using runs_head by blast
  have split: "runs_of (map item_of (xs @ f # g # ys)) = ?A @ (ea g, patch_val g # bs) # B"
    using runs_split_gap [OF gap, of xs ys] B by simp
  from inc have d: "distinct (map ea (xs @ f # g # ys))" by (rule increasing_distinct)
  note g = increasing_gap [OF inc]
  have keysB: "\<forall>r\<in>set B. ea f < fst r"
  proof
    fix r assume "r \<in> set B"
    with B have "r \<in> set (runs_of (map item_of (g # ys)))" by simp
    then have "fst r \<in> ea ` set (g # ys)" by (rule runs_key)
    with g(3) show "ea f < fst r" by auto
  qed
  show ?thesis
  proof (cases stop_after_first)
    case False
    with lo hi facts d split
    have R: "collect_continuous_patches db min_addr max_addr stop_after_first =
               normalized_patches (?A @ (ea g, patch_val g # bs) # B)"
      by (simp add: collect_resolved coalesce_False)
    from gap_entries [OF inc subset_refl keysB, of "patch_val g # bs"] show ?thesis
      unfolding R by blast
  next
    case True
    with reach have "contiguous (xs @ [f])" by simp
    then have "?A = [(ea (hd (xs @ [f])), map patch_val (xs @ [f]))]"
      using contiguous_single_run [of "hd (xs @ [f])" "tl (xs @ [f])"] by (cases xs) simp_all
    then obtain r where r: "?A = [r]" by blast
    have leak: "first_and_leak (?A @ (ea g, patch_val g # bs) # B) =
                  ?A @ (ea g, [patch_val g]) # []"
      by (simp only: r) simp
    with True lo hi facts d split
    have R: "collect_continuous_patches db min_addr max_addr stop_after_first =
               normalized_patches (?A @ (ea g, [patch_val g]) # [])"
      by (simp add: collect_resolved coalesce_True)
    have "\<forall>r\<in>set []. ea f < fst (r :: int \<times> byte list)" by simp
    from gap_entries [OF inc subset_refl this, of "[patch_val g]"] show ?thesis
      unfolding R by blast
  qed
qed

lemma example_stop:
  "collect_continuous_patches (idb_of example_facts) None None True =
     [(10, \<lparr>addr = 10, bytes = [0x61, 0x62, 0x63]\<rparr>), (20, \<lparr>addr = 20, bytes = [0x64]\<rparr>)]"
  by (simp add: collect_continuous_patches_def or_default_def idb_of_def example_facts_def
      edit_def coalesce_def patch_collector_def append_bytes_def normalized_patches_def Let_def)

lemma example_gap:
  "collect_continuous_patches (idb_of [edit 10 0x61, edit 12 0x61]) None None False =
     [(10, \<lparr>addr = 10, bytes = [0x61]\<rparr>), (12, \<lparr>addr = 12, bytes = [0x61]\<rparr>)]"
  by (simp add: collect_continuous_patches_def or_default_def idb_of_def example_facts_def
      edit_def coalesce_def patch_collector_def append_bytes_def normalized_patches_def Let_def)

theorem gap_starts_run_witness:
  "ea (edit 12 0x61) \<noteq> ea (edit 10 0x61) + 1 \<and>
   increasing ([] @ edit 10 0x61 # edit 12 0x61 # []) \<and>
   collect_continuous_patches (idb_of [edit 10 0x61, edit 12 0x61]) None None False =
     [(10, \<lparr>addr = 10, bytes = [0x61]\<rparr>), (12, \<lparr>addr = 12, bytes = [0x61]\<rparr>)] \<and>
   ((\<exists>bs. map_of (collect_continuous_patches (idb_of [edit 10 0x61, edit 12 0x61]) None None
              False) (ea (edit 12 0x61)) =
          Some \<lparr>addr = ea (edit 12 0x61), bytes = patch_val (edit 12 0x61) # bs\<rparr>) \<and>
    \<not> (10 \<le> ea (edit 10 0x61) \<and>
       ea (edit 12 0x61) < 10 + int (length (bytes \<lparr>addr = 10, bytes = [0x61]\<rparr>)))) \<and>
   contiguous ([edit 10 0x61, edit 11 0x62] @ [edit 12 0x63]) \<and>
   ((\<exists>bs. map_of (collect_continuous_patches (idb_of example_facts) None None True)
              (ea (edit 20 0x64)) =
          Some \<lparr>addr = ea (edit 20 0x64), bytes = patch_val (edit 20 0x64) # bs\<rparr>) \<and>
    \<not> (10 \<le> ea (edit 12 0x63) \<and>
       ea (edit 20 0x64) < 10 + int (length (bytes \<lparr>addr = 10, bytes = [0x61, 0x62, 0x63]\<rparr>))))"
proof -
  let ?db = "idb_of [edit 10 0x61, edit 12 0x61]"
  have lo: "or_default None (inf_get_min_ea ?db) = Some 0"
    and hi: "or_default None (inf_get_max_ea ?db) = Some 0x1000"
    by (simp_all add: or_default_def idb_of_def)
  have facts: "visit_patched_bytes ?db 0 0x1000 = [] @ edit 10 0x61 # edit 12 0x61 # []"
    by (simp add: idb_of_def edit_def)
  have inc: "increasing ([] @ edit 10 0x61 # edit 12 0x61 # [])"
    by (simp add: increasing_def edit_def)
  have gap: "ea (edit 12 0x61) \<noteq> ea (edit 10 0x61) + 1"
    by (simp add: edit_def)
  have reach: "False \<longrightarrow> contiguous ([] @ [edit 10 0x61])"
    by simp
  note first = gap_starts_run [OF lo hi facts inc gap reach]
  have lo': "or_default None (inf_get_min_ea (idb_of example_facts)) = Some 0"
    and hi': "or_default None (inf_get_max_ea (idb_of example_facts)) = Some 0x1000"
    by (simp_all add: or_default_def idb_of_def)
  have facts': "visit_patched_bytes (idb_of example_facts) 0 0x1000 =
      [edit 10 0x61, edit 11 0x62] @ edit 12 0x63 # edit 20 0x64 # [edit 21 0x65, edit 30 0x66]"
    by (simp only: example_enumeration) (simp add: example_facts_def)
  have inc': "increasing
      ([edit 10 0x61, edit 11 0x62] @ edit 12 0x63 # edit 20 0x64 # [edit 21 0x65, edit 30 0x66])"
    using example_increasing by (simp add: example_facts_def)
  have gap': "ea (edit 20 0x64) \<noteq> ea (edit 12 0x63) + 1"
    by (simp add: edit_def)
  have run: "contiguous ([edit 10 0x61, edit 11 0x62] @ [edit 12 0x63])"
    by (simp add: edit_def)
  then have reach': "True \<longrightarrow> contiguous ([edit 10 0x61, edit 11 0x62] @ [edit 12 0x63])"
    by simp
  note second = gap_starts_run [OF lo' hi' facts' inc' gap' reach']
  have in_first: "(10, \<lparr>addr = 10, bytes = [0x61]\<rparr>) \<in>
      set (collect_continuous_patches ?db None None False)"
    by (simp add: example_gap)
  have in_second: "(10, \<lparr>addr = 10, bytes = [0x61, 0x62, 0x63]\<rparr>) \<in>
      set (collect_continuous_patches (idb_of example_facts) None None True)"
    by (simp add: example_stop)
  from first in_first second in_second gap inc run example_gap show ?thesis by blast
qed

subsection \<open>\<open>stop_after_first\<close>\<close>

text \<open>
  C1. On the facts at 10, 11, 12, 20, 21, 30, queried from address 9 with
  \<open>stop_after_first\<close> set, the result has two entries: the first run, and an entry
  keyed at the start of the second run, 20, that holds the first byte of that run.
  The loop appends the byte of the fact that opens the second run (line 236) before
  it leaves (lines 237-238).
\<close>

theorem stop_after_first_second_start:
  "collect_continuous_patches (idb_of example_facts) (Some 9) (Some 40) True =
     [(10, \<lparr>addr = 10, bytes = [0x61, 0x62, 0x63]\<rparr>), (20, \<lparr>addr = 20, bytes = [0x64]\<rparr>)]"
  by (simp add: collect_continuous_patches_def or_default_def idb_of_def example_facts_def
      edit_def coalesce_def patch_collector_def append_bytes_def normalized_patches_def Let_def)

subsection \<open>\<open>_get_patch\<close>\<close>

lemma lookup_first_run:
  assumes "sorted_wrt apart rs" and "\<forall>r\<in>set rs. a - 1 \<le> fst r" and "\<forall>r\<in>set rs. snd r \<noteq> []"
  shows "map_of (first_and_leak rs) a =
           (case rs of [] \<Rightarrow> None | r # rs' \<Rightarrow> if fst r = a then Some (snd r) else None)"
proof (cases rs)
  case Nil
  then show ?thesis by simp
next
  case (Cons r rs')
  obtain s bs where r: "r = (s, bs)" by (cases r)
  show ?thesis
  proof (cases rs')
    case Nil
    with Cons r show ?thesis by simp
  next
    case (Cons r2 rs'')
    obtain s2 bs2 where r2: "r2 = (s2, bs2)" by (cases r2)
    from assms \<open>rs = r # rs'\<close> Cons r r2 have "s + int (length bs) < s2" "a - 1 \<le> s" "bs \<noteq> []"
      by (simp_all add: apart_def)
    then have "s2 \<noteq> a" by (cases bs) auto
    with \<open>rs = r # rs'\<close> Cons r r2 show ?thesis by simp
  qed
qed

lemma within_set: "within lo hi facts \<longleftrightarrow> (\<forall>f\<in>set facts. lo \<le> ea f \<and> ea f < hi)"
  by (simp add: within_def list_all_iff)

lemma get_patch_coalesce:
  "get_patch self db a =
     map_of (coalesce (visit_patched_bytes db (a - 1) (a + max_patch_size self)) True) a"
  by (simp add: get_patch_def collect_continuous_patches_def or_default_def)

text \<open>
  C8. Let the enumeration over the window \<open>[a - 1, a + 255)\<close> of \<open>_get_patch\<close> be
  strictly increasing and stay inside the window. If \<open>_get_patch a\<close> returns a
  patch, then the patch is at \<open>a\<close>, the address \<open>a\<close> is patched and \<open>a - 1\<close> is
  not (a run starts at \<open>a\<close>), the patch has between 1 and 255 bytes, so that it ends
  before \<open>a + 255\<close>, and each of its bytes is the patched byte enumerated at its
  address. If \<open>a\<close> and \<open>a - 1\<close> are both patched, so that the run of \<open>a\<close> starts
  earlier, the result is \<open>None\<close>. If \<open>a\<close> is patched and \<open>a - 1\<close> is not, the
  result is a patch.
\<close>

theorem get_patch_run_start:
  assumes size: "max_patch_size self = 0xff"
    and inc: "increasing (visit_patched_bytes db (a - 1) (a + 0xff))"
    and win: "within (a - 1) (a + 0xff) (visit_patched_bytes db (a - 1) (a + 0xff))"
  shows "(\<forall>p. get_patch self db a = Some p \<longrightarrow>
            addr p = a \<and> bytes p \<noteq> [] \<and> length (bytes p) \<le> 255 \<and>
            a \<in> ea ` set (visit_patched_bytes db (a - 1) (a + 0xff)) \<and>
            a - 1 \<notin> ea ` set (visit_patched_bytes db (a - 1) (a + 0xff)) \<and>
            set (layout (a, p)) \<subseteq>
              (\<lambda>f. (ea f, patch_val f)) ` set (visit_patched_bytes db (a - 1) (a + 0xff))) \<and>
         (a \<in> ea ` set (visit_patched_bytes db (a - 1) (a + 0xff)) \<and>
          a - 1 \<in> ea ` set (visit_patched_bytes db (a - 1) (a + 0xff)) \<longrightarrow>
            get_patch self db a = None) \<and>
         (a \<in> ea ` set (visit_patched_bytes db (a - 1) (a + 0xff)) \<and>
          a - 1 \<notin> ea ` set (visit_patched_bytes db (a - 1) (a + 0xff)) \<longrightarrow>
            get_patch self db a \<noteq> None)"
proof -
  let ?facts = "visit_patched_bytes db (a - 1) (a + 0xff)"
  let ?rs = "runs_of (map item_of ?facts)"
  from inc have d: "distinct (map ea ?facts)" by (rule increasing_distinct)
  from inc have ap: "sorted_wrt apart ?rs" by (rule runs_apart)
  from win have bounds: "\<forall>f\<in>set ?facts. a - 1 \<le> ea f \<and> ea f < a + 0xff"
    by (simp add: within_set)
  have low: "\<forall>r\<in>set ?rs. a - 1 \<le> fst r"
    using bounds by (auto dest!: runs_key)
  have get: "get_patch self db a =
      map_option (\<lambda>bs. \<lparr>addr = a, bytes = bs\<rparr>)
        (case ?rs of [] \<Rightarrow> None | r # rs' \<Rightarrow> if fst r = a then Some (snd r) else None)"
    using d lookup_first_run [OF ap low runs_all_nonempty]
    by (simp add: get_patch_coalesce size coalesce_True map_of_normalized)
  show ?thesis
  proof (cases ?facts)
    case Nil
    with get show ?thesis by (simp add: runs_of_Nil)
  next
    case (Cons f fs)
    obtain bs rs' where rs: "?rs = (ea f, patch_val f # bs) # rs'"
      using runs_head [of f fs] unfolding Cons by blast
    from inc Cons have first: "\<forall>g\<in>set fs. ea f < ea g"
      by (simp add: increasing_Cons)
    from get rs have get': "get_patch self db a =
        (if ea f = a then Some \<lparr>addr = a, bytes = patch_val f # bs\<rparr> else None)"
      by simp
    have in_rs: "(ea f, patch_val f # bs) \<in> set ?rs" by (simp add: rs)
    from runs_end [OF in_rs] bounds
    have len: "ea f + int (length (patch_val f # bs)) - 1 < a + 0xff" by auto
    have "set (raw_layout (ea f, patch_val f # bs)) \<subseteq> set (concat (map raw_layout ?rs))"
      using in_rs by auto
    then have lay: "set (spread (ea f) (patch_val f # bs)) \<subseteq> (\<lambda>f. (ea f, patch_val f)) ` set ?facts"
      unfolding runs_layout by (simp add: raw_layout_def)
    have A: "ea ` set ?facts = insert (ea f) (ea ` set fs)" by (simp add: Cons)
    have 1: "\<forall>p. get_patch self db a = Some p \<longrightarrow>
            addr p = a \<and> bytes p \<noteq> [] \<and> length (bytes p) \<le> 255 \<and>
            a \<in> ea ` set ?facts \<and> a - 1 \<notin> ea ` set ?facts \<and>
            set (layout (a, p)) \<subseteq> (\<lambda>f. (ea f, patch_val f)) ` set ?facts"
    proof (intro allI impI)
      fix p assume "get_patch self db a = Some p"
      with get' have eq: "ea f = a" and p: "p = \<lparr>addr = a, bytes = patch_val f # bs\<rparr>"
        by (simp_all split: if_splits)
      from first eq have "a - 1 \<notin> ea ` set ?facts" unfolding A by auto
      moreover from eq have "a \<in> ea ` set ?facts" unfolding A by simp
      moreover from len eq have "length (bytes p) \<le> 255" by (simp add: p)
      moreover from lay eq have "set (layout (a, p)) \<subseteq> (\<lambda>f. (ea f, patch_val f)) ` set ?facts"
        by (simp add: layout_def p)
      ultimately show "addr p = a \<and> bytes p \<noteq> [] \<and> length (bytes p) \<le> 255 \<and>
            a \<in> ea ` set ?facts \<and> a - 1 \<notin> ea ` set ?facts \<and>
            set (layout (a, p)) \<subseteq> (\<lambda>f. (ea f, patch_val f)) ` set ?facts"
        by (simp add: p)
    qed
    have 2: "a \<in> ea ` set ?facts \<and> a - 1 \<in> ea ` set ?facts \<longrightarrow> get_patch self db a = None"
      using first unfolding A get' by auto
    have 3: "a \<in> ea ` set ?facts \<and> a - 1 \<notin> ea ` set ?facts \<longrightarrow> get_patch self db a \<noteq> None"
    proof
      assume h: "a \<in> ea ` set ?facts \<and> a - 1 \<notin> ea ` set ?facts"
      with first have "ea f \<le> a" unfolding A by auto
      moreover from bounds Cons have "a - 1 \<le> ea f" by simp
      moreover from h have "ea f \<noteq> a - 1" unfolding A by auto
      ultimately have "ea f = a" by simp
      with get' show "get_patch self db a \<noteq> None" by simp
    qed
    from 1 2 3 show ?thesis by blast
  qed
qed

theorem get_patch_run_start_witness:
  "max_patch_size IDAInterface_init = 0xff \<and>
   increasing (visit_patched_bytes (idb_of example_facts) (10 - 1) (10 + 0xff)) \<and>
   within (10 - 1) (10 + 0xff) (visit_patched_bytes (idb_of example_facts) (10 - 1) (10 + 0xff)) \<and>
   get_patch IDAInterface_init (idb_of example_facts) 10 =
     Some \<lparr>addr = 10, bytes = [0x61, 0x62, 0x63]\<rparr> \<and>
   10 \<in> ea ` set (visit_patched_bytes (idb_of example_facts) (10 - 1) (10 + 0xff)) \<and>
   10 - 1 \<notin> ea ` set (visit_patched_bytes (idb_of example_facts) (10 - 1) (10 + 0xff)) \<and>
   length (bytes \<lparr>addr = 10, bytes = [0x61, 0x62, 0x63]\<rparr>) \<le> 255"
proof -
  have size: "max_patch_size IDAInterface_init = 0xff"
    by (simp add: IDAInterface_init_def)
  have inc: "increasing (visit_patched_bytes (idb_of example_facts) (10 - 1) (10 + 0xff))"
    using example_increasing by (simp add: example_enumeration)
  have win: "within (10 - 1) (10 + 0xff)
      (visit_patched_bytes (idb_of example_facts) (10 - 1) (10 + 0xff))"
    by (simp add: example_enumeration) (simp add: within_def example_facts_def edit_def)
  have get: "get_patch IDAInterface_init (idb_of example_facts) 10 =
      Some \<lparr>addr = 10, bytes = [0x61, 0x62, 0x63]\<rparr>"
    by (simp add: get_patch_def IDAInterface_init_def collect_continuous_patches_def or_default_def idb_of_def example_facts_def
      edit_def coalesce_def patch_collector_def append_bytes_def normalized_patches_def Let_def)
  from get_patch_run_start [OF size inc win] get size inc win show ?thesis by blast
qed

subsection \<open>\<open>_set_patch\<close>\<close>

text \<open>
  C2, as claimed: a write that leaves the backend state as it was returns false. The
  database below holds the byte \<open>0x90\<close> at address 16; writing the patch with that
  byte at that address leaves it unchanged, and \<open>_set_patch\<close> returns true.
\<close>

theorem set_patch_noop_counterexample:
  "set_patch store_bytes \<lparr>addr = 16, bytes = [0x90]\<rparr> [(16, 0x90)] = (Inr True, [(16, 0x90)])"
  by (simp add: set_patch_def store_bytes_def)

text \<open>
  C2, amended. \<open>_set_patch\<close> never returns false: it hands the address and the bytes
  of the patch to the backend's \<open>patch_bytes\<close>, the database after the call is the one
  that \<open>patch_bytes\<close> leaves, and whenever \<open>patch_bytes\<close> returns the result is true,
  whether or not the database changed.
\<close>

theorem set_patch_returns_true:
  "fst (set_patch patch_bytes patch db) \<noteq> Inr False \<and>
   snd (set_patch patch_bytes patch db) = snd (patch_bytes (addr patch) (bytes patch) db) \<and>
   (fst (patch_bytes (addr patch) (bytes patch) db) = Inr () \<longrightarrow>
      fst (set_patch patch_bytes patch db) = Inr True)"
  by (simp add: set_patch_def split: prod.splits sum.splits)

theorem set_patch_returns_true_witness:
  "fst (store_bytes 16 [0x90] []) = Inr () \<and>
   set_patch store_bytes \<lparr>addr = 16, bytes = [0x90]\<rparr> [] = (Inr True, [(16, 0x90)])"
proof -
  have w: "fst (store_bytes 16 [0x90] []) = Inr ()" "snd (store_bytes 16 [0x90] []) = [(16, 0x90)]"
    by (simp_all add: store_bytes_def)
  from set_patch_returns_true [of store_bytes "\<lparr>addr = 16, bytes = [0x90]\<rparr>" "[]"] w
  show ?thesis by (simp add: prod_eq_iff)
qed

subsection \<open>\<open>_set_struct\<close>\<close>

text \<open>
  C6. On an instance whose \<open>_crashing_version\<close> is set, \<open>_set_struct\<close> of a struct
  named \<open>gcc_va_list\<close> returns false without raising, whatever the flags \<open>header\<close>
  and \<open>members\<close> and whatever the setters of \<open>compat\<close> would do; the database is the
  one before the call, and the log has one more record, of critical severity.
\<close>

theorem set_struct_refused:
  assumes "crashing_version self" and "struct_name struct = ''gcc_va_list''"
  shows "set_struct set_ida_struct set_ida_struct_member_types self struct header members
           (db, logged) =
         (Inr False, (db, logged @ [(Critical, skip_message struct)]))"
  using assms by (simp add: set_struct_def)

theorem set_struct_refused_witness:
  "crashing_version (IDAInterface_init\<lparr>crashing_version := True\<rparr>) \<and>
   struct_name \<lparr>struct_name = ''gcc_va_list'', struct_size = 24\<rparr> = ''gcc_va_list'' \<and>
   set_struct example_setter example_setter (IDAInterface_init\<lparr>crashing_version := True\<rparr>)
     \<lparr>struct_name = ''gcc_va_list'', struct_size = 24\<rparr> True True (0, []) =
   (Inr False, (0,
      [(Critical, ''Syncing the struct gcc_va_list in IDA Pro 8.2 <= will cause a crash. Skipping...'')]))"
  using set_struct_refused [of "IDAInterface_init\<lparr>crashing_version := True\<rparr>"
      "\<lparr>struct_name = ''gcc_va_list'', struct_size = 24\<rparr>" example_setter example_setter
      True True 0 "[]"]
  by (simp add: skip_message_def)

subsection \<open>\<open>_decompile\<close>\<close>

text \<open>
  C7. When \<open>ida_hexrays.decompile\<close> raises an instance of \<open>Exception\<close>,
  \<open>_decompile\<close> returns \<open>None\<close> and raises nothing. When it returns a \<open>cfunc\<close>
  whose printing gives a text, \<open>_decompile\<close> returns that text.
\<close>

theorem decompile_catches:
  "(hexrays_decompile (fn_addr function) = Inl (Exception m) \<longrightarrow>
      decompile hexrays_decompile str function = Inr None) \<and>
   (hexrays_decompile (fn_addr function) = Inr cfunc \<and> str cfunc = Inr t \<longrightarrow>
      decompile hexrays_decompile str function = Inr (Some t))"
  by (simp add: decompile_def)

theorem decompile_catches_witness:
  "example_decompile (fn_addr \<lparr>fn_addr = 0x2000, fn_size = 0, fn_header = None\<rparr>) =
     Inl (Exception ''DecompilationFailure'') \<and>
   decompile example_decompile Inr \<lparr>fn_addr = 0x2000, fn_size = 0, fn_header = None\<rparr> =
     Inr None \<and>
   example_decompile (fn_addr \<lparr>fn_addr = 0x1000, fn_size = 0, fn_header = None\<rparr>) =
     Inr ''int main()'' \<and>
   decompile example_decompile Inr \<lparr>fn_addr = 0x1000, fn_size = 0, fn_header = None\<rparr> =
     Inr (Some ''int main()'')"
proof -
  have fails: "example_decompile (fn_addr \<lparr>fn_addr = 0x2000, fn_size = 0, fn_header = None\<rparr>) =
      Inl (Exception ''DecompilationFailure'')"
    by (simp add: example_decompile_def)
  have works: "example_decompile (fn_addr \<lparr>fn_addr = 0x1000, fn_size = 0, fn_header = None\<rparr>) =
      Inr ''int main()''"
    by (simp add: example_decompile_def)
  have printed: "(Inr ''int main()'' :: py_exn + string) = Inr ''int main()''"
    by simp
  from decompile_catches [of example_decompile
      "\<lparr>fn_addr = 0x2000, fn_size = 0, fn_header = None\<rparr>" "''DecompilationFailure''" Inr]
    decompile_catches [of example_decompile
      "\<lparr>fn_addr = 0x1000, fn_size = 0, fn_header = None\<rparr>" _ Inr "''int main()''"
      "''int main()''"]
    fails works printed
  show ?thesis by blast
qed

subsection \<open>\<open>decompiler_available\<close>\<close>

lemma on_instance_cached:
  assumes "decompiler_available_cache (fst s) = Some b"
  shows "decompiler_available_cache (fst (on_instance cf probe c s)) = Some b \<and>
         snd (on_instance cf probe c s) = snd s"
  using assms
  by (cases c; cases s)
     (simp_all add: decompiler_available_def update_active_context_def split: option.splits)

lemma run_calls_cached:
  assumes "decompiler_available_cache (fst s) = Some b"
  shows "decompiler_available_cache (fst (run_calls cf probe cs s)) = Some b \<and>
         snd (run_calls cf probe cs s) = snd s"
  using assms
proof (induction cs arbitrary: s)
  case Nil
  then show ?case by (simp add: run_calls_def)
next
  case (Cons c cs)
  from on_instance_cached [OF Cons.prems]
  have 1: "decompiler_available_cache (fst (on_instance cf probe c s)) = Some b"
    and 2: "snd (on_instance cf probe c s) = snd s" by simp_all
  from Cons.IH [OF 1] 2 show ?case by (simp add: run_calls_def)
qed

lemma on_instance_probed_once:
  "probed_once s \<Longrightarrow> probed_once (on_instance cf probe c s)"
  by (cases c; cases s)
     (auto simp add: probed_once_def decompiler_available_def update_active_context_def Let_def
        split: option.splits)

lemma run_calls_probed_once: "probed_once s \<Longrightarrow> probed_once (run_calls cf probe cs s)"
  unfolding run_calls_def
  by (induction cs arbitrary: s) (simp_all add: on_instance_probed_once)

lemma decompiler_available_establishes:
  "decompiler_available probe s = (b, s1) \<Longrightarrow> decompiler_available_cache (fst s1) = Some b"
  by (cases s) (auto simp add: decompiler_available_def Let_def split: option.splits)

lemma decompiler_available_cached_read:
  "decompiler_available_cache (fst s) = Some b \<Longrightarrow> decompiler_available probe s = (b, s)"
  by (cases s) (simp add: decompiler_available_def)

text \<open>
  C9. A session that starts with \<open>__init__\<close> calls \<open>init_hexrays_plugin\<close> at most
  once, whatever methods of the adapter are called. And from any session: once a read
  of \<open>decompiler_available\<close> has returned \<open>b\<close>, then after any sequence of calls of
  the adapter's methods a read returns \<open>b\<close> again and leaves the session as it is,
  the number of probes is the one after the first read, and the cached value is
  \<open>b\<close>, whatever the backend would answer to another probe.
\<close>

theorem decompiler_available_probed_once:
  "snd (run_calls cf probe cs (IDAInterface_init, 0)) \<le> 1 \<and>
   (decompiler_available probe s = (b, s1) \<longrightarrow>
      decompiler_available probe (run_calls cf probe cs s1) = (b, run_calls cf probe cs s1) \<and>
      snd (run_calls cf probe cs s1) = snd s1 \<and>
      decompiler_available_cache (fst (run_calls cf probe cs s1)) = Some b)"
proof -
  have "probed_once (IDAInterface_init, 0)"
    by (simp add: probed_once_def IDAInterface_init_def)
  then have "probed_once (run_calls cf probe cs (IDAInterface_init, 0))"
    by (rule run_calls_probed_once)
  then have once: "snd (run_calls cf probe cs (IDAInterface_init, 0)) \<le> 1"
    by (simp add: probed_once_def split: option.splits)
  show ?thesis
    using once decompiler_available_establishes [of probe s b s1]
      run_calls_cached [of s1 b cf probe cs]
      decompiler_available_cached_read [of "run_calls cf probe cs s1" b probe]
    by blast
qed

theorem decompiler_available_probed_once_witness:
  "decompiler_available (\<lambda>n. n = 0) (IDAInterface_init, 0) =
     (True, (IDAInterface_init\<lparr>decompiler_available_cache := Some True\<rparr>, 1)) \<and>
   snd (run_calls example_compat (\<lambda>n. n = 0)
          [Set_function, Update_active_context (Some 0x1004), Get_function, Decompiler_available]
          (IDAInterface_init, 0)) \<le> 1 \<and>
   fst (decompiler_available (\<lambda>n. n = 0)
          (run_calls example_compat (\<lambda>n. n = 0)
             [Set_function, Update_active_context (Some 0x1004), Get_function,
              Decompiler_available]
             (IDAInterface_init\<lparr>decompiler_available_cache := Some True\<rparr>, 1))) = True \<and>
   snd (run_calls example_compat (\<lambda>n. n = 0)
          [Set_function, Update_active_context (Some 0x1004), Get_function, Decompiler_available]
          (IDAInterface_init\<lparr>decompiler_available_cache := Some True\<rparr>, 1)) = 1"
proof -
  have first: "decompiler_available (\<lambda>n. n = 0) (IDAInterface_init, 0) =
      (True, (IDAInterface_init\<lparr>decompiler_available_cache := Some True\<rparr>, 1))"
    by (simp add: decompiler_available_def IDAInterface_init_def)
  from decompiler_available_probed_once [of example_compat "\<lambda>n. n = 0"
      "[Set_function, Update_active_context (Some 0x1004), Get_function, Decompiler_available]"
      "(IDAInterface_init, 0)" True
      "(IDAInterface_init\<lparr>decompiler_available_cache := Some True\<rparr>, 1)"]
    first
  show ?thesis by simp
qed

end
